theory Spec2Isabelle
  imports Main "HOL-Library.Word"
begin

section \<open>Data model\<close>

text \<open>
  A JavaScript string is modelled as a \<open>string\<close> (a list of characters with codes
  0..255), a Node \<open>Buffer\<close> as a list of bytes.  Buffers are objects that the code
  shares with its caller, so they live in a heap: a list of buffers, a reference being
  an index into it.  \<open>Buffer.alloc\<close> appends a new buffer to the heap.
\<close>

type_synonym byte = "8 word"
type_synonym buffer = "byte list"
type_synonym ref = nat
type_synonym heap = "buffer list"

text \<open>
  Every failure of the source is a thrown \<open>Error\<close>; the constructors keep the data
  that the error messages carry.
  \<^item> \<open>NotAValidMac\<close>: \<open>new Error('Not a valid mac address.')\<close>
  \<^item> \<open>NotAValidMacAt a i\<close>: \<open>new Error(`'${a}'at index ${i} is not a valid Mac address.`)\<close>
  \<^item> \<open>BufferNotLargeEnough off len\<close>: the error of \<open>validateBufferLength\<close>, with the
    offset and the total length of its message
  \<^item> \<open>RangeError\<close>: raised by Node's \<open>Buffer\<close> methods for an index outside the buffer
\<close>

datatype error =
    NotAValidMac
  | NotAValidMacAt string nat
  | BufferNotLargeEnough int nat
  | RangeError

definition bufferLength :: nat where
  "bufferLength = 6"

section \<open>Characters and strings\<close>

definition charCode :: "char \<Rightarrow> nat" where
  "charCode c = of_char c"

text \<open>The character class \<open>[0-9A-Fa-f]\<close>: three ranges of character codes.\<close>

definition hexChar :: "char \<Rightarrow> bool" where
  "hexChar c =
     ((48 \<le> charCode c \<and> charCode c \<le> 57)
      \<or> (65 \<le> charCode c \<and> charCode c \<le> 70)
      \<or> (97 \<le> charCode c \<and> charCode c \<le> 102))"

text \<open>The character class \<open>[:-]\<close>.\<close>

definition sepChar :: "char \<Rightarrow> bool" where
  "sepChar c = (c = CHR '':'' \<or> c = CHR ''-'')"

text \<open>
  \<open>String.prototype.toUpperCase\<close> on ASCII strings: the letters a..z are mapped to
  A..Z and every other ASCII character is kept.  JavaScript also maps letters outside
  ASCII (U+00E9 to U+00C9, U+00DF to \<open>SS\<close>, U+00FF to U+0178), which this function leaves
  as they are: strings with such characters are outside the model of \<open>toUpperCase\<close>.
  Every property below applies it to hexadecimal digits and the separators \<open>:\<close> and
  \<open>-\<close> only.
\<close>

definition upperChar :: "char \<Rightarrow> char" where
  "upperChar c =
     (if 97 \<le> charCode c \<and> charCode c \<le> 122 then char_of (charCode c - 32) else c)"

definition toUpperCase :: "string \<Rightarrow> string" where
  "toUpperCase s = map upperChar s"

text \<open>
  \<open>s.split(/[:-]/)\<close>: the pieces of \<open>s\<close> between the separator characters.  The
  empty string gives one empty piece, and a leading, trailing or doubled separator
  gives an empty piece, as in JavaScript.
\<close>

fun split :: "string \<Rightarrow> string list" where
  "split [] = [[]]"
| "split (c # cs) =
     (if sepChar c then [] # split cs
      else (c # hd (split cs)) # tl (split cs))"

text \<open>\<open>array.join(sep)\<close>.\<close>

fun join :: "string \<Rightarrow> string list \<Rightarrow> string" where
  "join sep [] = []"
| "join sep [x] = x"
| "join sep (x # y # ys) = x @ sep @ join sep (y # ys)"

text \<open>\<open>mac.replace(/[:-]/g, '')\<close>: every separator character is removed.\<close>

definition stripSeparators :: "string \<Rightarrow> string" where
  "stripSeparators s = filter (\<lambda>c. \<not> sepChar c) s"

section \<open>The validator\<close>

text \<open>
  \<open>isMacAddress\<close> tests the regular expression
  \<^verbatim>\<open>/^[0-9A-Fa-f]{2}([:-])(?:[0-9A-Fa-f]{2}\1){4}[0-9A-Fa-f]{2}$/\<close>.
  Every part of it consumes a fixed number of characters, so matching is one pass from
  the start of the string (\<open>^\<close>) that must end with nothing left (\<open>$\<close>).
\<close>

text \<open>\<open>[0-9A-Fa-f]{2}\<close> at the head of the input; the result is the rest of the input.\<close>

fun hexPair :: "string \<Rightarrow> string option" where
  "hexPair (a # b # rest) = (if hexChar a \<and> hexChar b then Some rest else None)"
| "hexPair _ = None"

text \<open>\<open>(?:[0-9A-Fa-f]{2}\1){n}\<close>, where \<open>s\<close> is the character captured by group 1.\<close>

fun hexPairsSep :: "char \<Rightarrow> nat \<Rightarrow> string \<Rightarrow> string option" where
  "hexPairsSep s 0 xs = Some xs"
| "hexPairsSep s (Suc n) xs =
     (case hexPair xs of
        None \<Rightarrow> None
      | Some [] \<Rightarrow> None
      | Some (c # rest) \<Rightarrow> if c = s then hexPairsSep s n rest else None)"

definition isMacAddress :: "string \<Rightarrow> bool" where
  "isMacAddress macAddress =
     (case hexPair macAddress of
        None \<Rightarrow> False
      | Some [] \<Rightarrow> False
      | Some (s # rest) \<Rightarrow>
          sepChar s \<and>
          (case hexPairsSep s 4 rest of
             None \<Rightarrow> False
           | Some final \<Rightarrow> hexPair final = Some []))"

section \<open>Formatting and reversal\<close>

text \<open>
  \<open>constructMacAddress(array, separator)\<close>.  The separator is optional: \<open>None\<close> is
  \<open>undefined\<close>, and \<open>separator || ':'\<close> also replaces the empty string, which is
  falsy.
\<close>

definition constructMacAddress :: "string list \<Rightarrow> string option \<Rightarrow> string" where
  "constructMacAddress array separator =
     (let sep = (case separator of
                   None \<Rightarrow> '':''
                 | Some s \<Rightarrow> if s = [] then '':'' else s);
          joinedString = join sep array;
          macAddress = toUpperCase joinedString
      in macAddress)"

definition reverseMacAddress :: "string \<Rightarrow> error + string" where
  "reverseMacAddress macAddress =
     (if \<not> isMacAddress macAddress then Inl NotAValidMac
      else
        let upperCaseMac = toUpperCase macAddress;
            macArray = split upperCaseMac
        in Inr (constructMacAddress (rev macArray) None))"

definition toArray :: "string \<Rightarrow> string list" where
  "toArray macAddress =
     (let upperCaseMac = toUpperCase macAddress;
          array = split upperCaseMac
      in array)"

section \<open>Buffers\<close>

text \<open>
  \<open>~~offset\<close>: the offset as a signed 32-bit integer.  An integer is wrapped around
  modulo \<open>2 ^ 32\<close> into \<open>-2 ^ 31 .. 2 ^ 31 - 1\<close>; an omitted offset (\<open>undefined\<close>)
  becomes 0.
\<close>

definition toInt32 :: "int \<Rightarrow> int" where
  "toInt32 n = (n + 2 ^ 31) mod 2 ^ 32 - 2 ^ 31"

definition bitwiseOffset :: "int option \<Rightarrow> int" where
  "bitwiseOffset offset = (case offset of None \<Rightarrow> 0 | Some n \<Rightarrow> toInt32 n)"

definition validateBufferLength :: "buffer \<Rightarrow> int \<Rightarrow> error + unit" where
  "validateBufferLength buf offset =
     (if int (length buf) < offset + int bufferLength
      then Inl (BufferNotLargeEnough offset (length buf))
      else Inr ())"

text \<open>\<open>Buffer.alloc(bufferLength, '00', 'hex')\<close>: a new buffer of zero bytes.\<close>

definition alloc :: "heap \<Rightarrow> nat \<Rightarrow> ref \<times> heap" where
  "alloc h n = (length h, h @ [replicate n 0])"

text \<open>
  \<open>buf.readUInt8(i)\<close>: the byte at index \<open>i\<close>, and a \<open>RangeError\<close> for an index
  outside the buffer.
\<close>

definition readUInt8 :: "buffer \<Rightarrow> int \<Rightarrow> error + nat" where
  "readUInt8 buf i =
     (if 0 \<le> i \<and> i < int (length buf) then Inr (unat (buf ! nat i)) else Inl RangeError)"

text \<open>The value of a hexadecimal digit, as Node's hex decoder reads it.\<close>

definition hexValue :: "char \<Rightarrow> nat option" where
  "hexValue c =
     (if 48 \<le> charCode c \<and> charCode c \<le> 57 then Some (charCode c - 48)
      else if 65 \<le> charCode c \<and> charCode c \<le> 70 then Some (charCode c - 55)
      else if 97 \<le> charCode c \<and> charCode c \<le> 102 then Some (charCode c - 87)
      else None)"

text \<open>
  Decoding a hex string into at most \<open>n\<close> bytes, two digits a byte; decoding stops at
  the first pair that is not two hex digits.
\<close>

fun hexDecode :: "string \<Rightarrow> nat \<Rightarrow> byte list" where
  "hexDecode (a # b # rest) (Suc n) =
     (case (hexValue a, hexValue b) of
        (Some x, Some y) \<Rightarrow> of_nat (16 * x + y) # hexDecode rest n
      | _ \<Rightarrow> [])"
| "hexDecode _ _ = []"

text \<open>
  \<open>buf.write(string, offset, length, 'hex')\<close>: at most \<open>length\<close> decoded bytes, and no
  more than fit, replace the bytes of the buffer from \<open>offset\<close> on.  An offset outside
  the buffer is a \<open>RangeError\<close>.  The result is the new content of the buffer.
\<close>

definition bufferWriteHex :: "buffer \<Rightarrow> string \<Rightarrow> int \<Rightarrow> nat \<Rightarrow> error + buffer" where
  "bufferWriteHex buf str offset len =
     (if offset < 0 \<or> int (length buf) < offset then Inl RangeError
      else
        let start = nat offset;
            bytes = hexDecode str (min len (length buf - start))
        in Inr (take start buf @ bytes @ drop (start + length bytes) buf))"

text \<open>
  \<open>toBuffer(mac, buf, offset)\<close> on a heap.  The buffer argument is \<open>Some r\<close> for a
  reference to a \<open>Buffer\<close> and \<open>None\<close> for anything else (\<open>Buffer.isBuffer(buf)\<close> is
  false).  The result is the returned reference, or the error thrown, and the heap after
  the call.
\<close>

definition toBuffer :: "heap \<Rightarrow> string \<Rightarrow> ref option \<Rightarrow> int option \<Rightarrow> (error + ref) \<times> heap" where
  "toBuffer h mac buf offset =
     (if \<not> isMacAddress mac then (Inl NotAValidMac, h)
      else
        let convertedMac = stripSeparators mac;
            off = bitwiseOffset offset;
            (tempBuffer, h1) = (case buf of
                                  Some r \<Rightarrow> (r, h)
                                | None \<Rightarrow> alloc h bufferLength)
        in case validateBufferLength (h1 ! tempBuffer) off of
             Inl e \<Rightarrow> (Inl e, h1)
           | Inr _ \<Rightarrow>
               (case buf of
                  Some _ \<Rightarrow> (Inr tempBuffer, h1)
                | None \<Rightarrow>
                    (case bufferWriteHex (h1 ! tempBuffer) convertedMac off bufferLength of
                       Inl e \<Rightarrow> (Inl e, h1)
                     | Inr written \<Rightarrow> (Inr tempBuffer, h1[tempBuffer := written]))))"

text \<open>\<open>n.toString(16)\<close> for a natural number: lower-case digits, no padding.\<close>

definition hexDigit :: "nat \<Rightarrow> char" where
  "hexDigit d = ''0123456789abcdef'' ! d"

function numberToString16 :: "nat \<Rightarrow> string" where
  "numberToString16 n =
     (if n < 16 then [hexDigit n] else numberToString16 (n div 16) @ [hexDigit (n mod 16)])"
  by pat_completeness auto
termination
  by (relation "measure id") auto

declare numberToString16.simps [simp del]

text \<open>
  The loop of \<open>toString\<close>: \<open>i\<close> runs up to \<open>bufferLength\<close>, \<open>values\<close> collects the
  two-digit strings.
\<close>

function toStringLoop :: "buffer \<Rightarrow> int \<Rightarrow> nat \<Rightarrow> string list \<Rightarrow> error + string list" where
  "toStringLoop buf off i values =
     (if i < bufferLength then
        (case readUInt8 buf (off + int i) of
           Inl e \<Rightarrow> Inl e
         | Inr tempByte \<Rightarrow>
             let tempString = numberToString16 tempByte;
                 padded = (if length tempString < 2 then CHR ''0'' # tempString else tempString)
             in toStringLoop buf off (i + 1) (values @ [padded]))
      else Inr values)"
  by pat_completeness auto
termination
  by (relation "measure (\<lambda>(buf, off, i, values). bufferLength - i)") auto

declare toStringLoop.simps [simp del]

definition toString :: "buffer \<Rightarrow> int option \<Rightarrow> string option \<Rightarrow> error + string" where
  "toString buf offset separator =
     (let off = bitwiseOffset offset
      in case validateBufferLength buf off of
           Inl e \<Rightarrow> Inl e
         | Inr _ \<Rightarrow>
             (case toStringLoop buf off 0 [] of
                Inl e \<Rightarrow> Inl e
              | Inr values \<Rightarrow> Inr (constructMacAddress values separator)))"

section \<open>Equality of addresses\<close>

definition containsAll :: "string list \<Rightarrow> string list \<Rightarrow> bool" where
  "containsAll arr1 arr2 = list_all (\<lambda>arr2Item. arr2Item \<in> set arr1) arr2"

definition sameElements :: "string list \<Rightarrow> string list \<Rightarrow> bool" where
  "sameElements arr1 arr2 = (containsAll arr1 arr2 \<and> containsAll arr2 arr1)"

text \<open>
  The first \<open>forEach\<close> of \<open>areEqual\<close>: every address is validated and converted, in
  order; the first invalid one throws.
\<close>

fun convertAddresses :: "string list \<Rightarrow> nat \<Rightarrow> string list list \<Rightarrow> error + string list list" where
  "convertAddresses [] index convertedAddresses = Inr convertedAddresses"
| "convertAddresses (macAddress # rest) index convertedAddresses =
     (if \<not> isMacAddress macAddress then Inl (NotAValidMacAt macAddress index)
      else convertAddresses rest (index + 1) (convertedAddresses @ [toArray macAddress]))"

text \<open>
  The second \<open>forEach\<close>: every converted address is compared with the first one.
  \<open>convertedAddresses[0]\<close> is only read inside the loop, where the list is not empty.
\<close>

definition compareWithFirst :: "string list list \<Rightarrow> bool" where
  "compareWithFirst convertedAddresses =
     fold (\<lambda>array equal.
             if \<not> sameElements (convertedAddresses ! 0) array then False else equal)
          convertedAddresses True"

definition areEqual :: "string list \<Rightarrow> error + bool" where
  "areEqual macAddresses =
     (case convertAddresses macAddresses 0 [] of
        Inl e \<Rightarrow> Inl e
      | Inr convertedAddresses \<Rightarrow> Inr (compareWithFirst convertedAddresses))"

section \<open>The specification's notions\<close>

text \<open>
  The grammar of an address as the specification words it: six groups of exactly two
  hexadecimal characters (0-9, A-F, a-f), joined by one separator character, \<open>:\<close> or
  \<open>-\<close>, the same between all groups.
\<close>

definition hexGroup :: "string \<Rightarrow> bool" where
  "hexGroup g = (length g = 2 \<and> list_all (\<lambda>c. c \<in> set ''0123456789ABCDEFabcdef'') g)"

definition macAddressShape :: "string \<Rightarrow> bool" where
  "macAddressShape s =
     (\<exists>sep gs. (sep = CHR '':'' \<or> sep = CHR ''-'') \<and> length gs = 6 \<and>
        list_all hexGroup gs \<and> s = join [sep] gs)"

text \<open>
  The octet that a group of two hexadecimal digits denotes: sixteen times the value of
  the first digit plus the value of the second one, the value of a digit being its
  position among \<open>0123456789ABCDEF\<close>, whatever its case.
\<close>

definition digitValue :: "char \<Rightarrow> nat" where
  "digitValue c = length (takeWhile (\<lambda>d. d \<noteq> upperChar c) ''0123456789ABCDEF'')"

fun groupByte :: "string \<Rightarrow> byte" where
  "groupByte [a, b] = of_nat (16 * digitValue a + digitValue b)"
| "groupByte _ = 0"

text \<open>The bytes that an address denotes: one octet for each group, in order.\<close>

definition macBytes :: "string \<Rightarrow> buffer" where
  "macBytes mac = map groupByte (toArray mac)"

text \<open>A byte as two upper-case hexadecimal digits, padded with a zero.\<close>

definition byteHex :: "byte \<Rightarrow> string" where
  "byteHex b = [''0123456789ABCDEF'' ! (unat b div 16), ''0123456789ABCDEF'' ! (unat b mod 16)]"

section \<open>Characters\<close>

lemma charCode_numeral:
  "charCode c = numeral k \<longleftrightarrow> (numeral k < (256::nat) \<and> c = char_of (numeral k :: nat))"
proof
  assume h: "charCode c = numeral k"
  have "of_char c < (256::nat)" by (rule nat_of_char_less_256)
  moreover have "char_of (of_char c :: nat) = c" by (rule char_of_char)
  ultimately show "numeral k < (256::nat) \<and> c = char_of (numeral k :: nat)"
    using h unfolding charCode_def by metis
next
  assume "numeral k < (256::nat) \<and> c = char_of (numeral k :: nat)"
  then show "charCode c = numeral k" unfolding charCode_def by (simp only: of_char_of mod_less)
qed

lemma range_digits: "(48 \<le> n \<and> n \<le> 57) \<longleftrightarrow> (n::nat) \<in> {48,49,50,51,52,53,54,55,56,57}"
  by (simp, arith)
lemma range_upper: "(65 \<le> n \<and> n \<le> 70) \<longleftrightarrow> (n::nat) \<in> {65,66,67,68,69,70}"
  by (simp, arith)
lemma range_lower: "(97 \<le> n \<and> n \<le> 102) \<longleftrightarrow> (n::nat) \<in> {97,98,99,100,101,102}"
  by (simp, arith)

lemma char_of_hex:
  "char_of (48::nat) = CHR ''0''" "char_of (49::nat) = CHR ''1''"
  "char_of (50::nat) = CHR ''2''" "char_of (51::nat) = CHR ''3''"
  "char_of (52::nat) = CHR ''4''" "char_of (53::nat) = CHR ''5''"
  "char_of (54::nat) = CHR ''6''" "char_of (55::nat) = CHR ''7''"
  "char_of (56::nat) = CHR ''8''" "char_of (57::nat) = CHR ''9''"
  "char_of (65::nat) = CHR ''A''" "char_of (66::nat) = CHR ''B''"
  "char_of (67::nat) = CHR ''C''" "char_of (68::nat) = CHR ''D''"
  "char_of (69::nat) = CHR ''E''" "char_of (70::nat) = CHR ''F''"
  "char_of (97::nat) = CHR ''a''" "char_of (98::nat) = CHR ''b''"
  "char_of (99::nat) = CHR ''c''" "char_of (100::nat) = CHR ''d''"
  "char_of (101::nat) = CHR ''e''" "char_of (102::nat) = CHR ''f''"
  by code_simp+

lemma hexChar_cases:
  "hexChar c \<longleftrightarrow> c \<in> set ''0123456789ABCDEFabcdef''"
  unfolding hexChar_def range_digits range_upper range_lower
  by (simp add: charCode_numeral char_of_hex)

lemma hexChar_not_sepChar: "hexChar c \<Longrightarrow> \<not> sepChar c"
  unfolding hexChar_cases sepChar_def by auto

lemma upperChar_values:
  "upperChar CHR ''0'' = CHR ''0''" "upperChar CHR ''1'' = CHR ''1''"
  "upperChar CHR ''2'' = CHR ''2''" "upperChar CHR ''3'' = CHR ''3''"
  "upperChar CHR ''4'' = CHR ''4''" "upperChar CHR ''5'' = CHR ''5''"
  "upperChar CHR ''6'' = CHR ''6''" "upperChar CHR ''7'' = CHR ''7''"
  "upperChar CHR ''8'' = CHR ''8''" "upperChar CHR ''9'' = CHR ''9''"
  "upperChar CHR ''A'' = CHR ''A''" "upperChar CHR ''B'' = CHR ''B''"
  "upperChar CHR ''C'' = CHR ''C''" "upperChar CHR ''D'' = CHR ''D''"
  "upperChar CHR ''E'' = CHR ''E''" "upperChar CHR ''F'' = CHR ''F''"
  "upperChar CHR ''a'' = CHR ''A''" "upperChar CHR ''b'' = CHR ''B''"
  "upperChar CHR ''c'' = CHR ''C''" "upperChar CHR ''d'' = CHR ''D''"
  "upperChar CHR ''e'' = CHR ''E''" "upperChar CHR ''f'' = CHR ''F''"
  "upperChar CHR '':'' = CHR '':''" "upperChar CHR ''-'' = CHR ''-''"
  by code_simp+

lemma sepChar_upperChar: "sepChar c \<Longrightarrow> upperChar c = c"
  by (auto simp: sepChar_def upperChar_values)

lemma upperChar_hex: "hexChar c \<Longrightarrow> upperChar c \<in> set ''0123456789ABCDEF''"
  unfolding hexChar_cases by (auto simp: upperChar_values)

lemma upperChar_upper: "c \<in> set ''0123456789ABCDEF'' \<Longrightarrow> upperChar c = c"
  by (auto simp: upperChar_values)

lemma hexChar_upper: "c \<in> set ''0123456789ABCDEF'' \<Longrightarrow> hexChar c"
  unfolding hexChar_cases by auto

section \<open>The shape of a valid address\<close>

lemma hexPair_Some:
  "hexPair xs = Some r \<longleftrightarrow> (\<exists>a b. xs = a # b # r \<and> hexChar a \<and> hexChar b)"
  by (cases xs rule: hexPair.cases) auto

lemma hexPairsSep_Suc:
  "hexPairsSep s (Suc n) xs = Some r \<longleftrightarrow>
     (\<exists>a b rest. xs = a # b # s # rest \<and> hexChar a \<and> hexChar b \<and> hexPairsSep s n rest = Some r)"
  by (auto simp: hexPair_Some split: option.splits list.splits)

lemma hexPairsSepE:
  assumes "hexPairsSep s (Suc n) xs = Some r"
  obtains a b rest where "xs = a # b # s # rest" "hexChar a" "hexChar b"
    "hexPairsSep s n rest = Some r"
  using assms unfolding hexPairsSep_Suc by blast

lemma isMacAddress_unfold:
  "isMacAddress m \<longleftrightarrow>
     (\<exists>s rest final. hexPair m = Some (s # rest) \<and> sepChar s \<and>
        hexPairsSep s (Suc (Suc (Suc (Suc 0)))) rest = Some final \<and> hexPair final = Some [])"
proof -
  have 4: "(4::nat) = Suc (Suc (Suc (Suc 0)))" by simp
  show ?thesis
    unfolding isMacAddress_def 4
    by (auto simp del: hexPairsSep.simps split: option.split list.split)
qed

lemma isMacAddress_explicitD:
  assumes "isMacAddress m"
  shows "\<exists>s a1 b1 a2 b2 a3 b3 a4 b4 a5 b5 a6 b6.
        m = [a1, b1, s, a2, b2, s, a3, b3, s, a4, b4, s, a5, b5, s, a6, b6] \<and> sepChar s \<and>
        hexChar a1 \<and> hexChar b1 \<and> hexChar a2 \<and> hexChar b2 \<and> hexChar a3 \<and> hexChar b3 \<and>
        hexChar a4 \<and> hexChar b4 \<and> hexChar a5 \<and> hexChar b5 \<and> hexChar a6 \<and> hexChar b6"
proof -
  from assms obtain s r1 final where 1: "hexPair m = Some (s # r1)" and s: "sepChar s"
    and 2: "hexPairsSep s (Suc (Suc (Suc (Suc 0)))) r1 = Some final"
    and 3: "hexPair final = Some []"
    unfolding isMacAddress_unfold by blast
  from 1 obtain a1 b1 where m: "m = a1 # b1 # s # r1" and h1: "hexChar a1" "hexChar b1"
    unfolding hexPair_Some by blast
  from 2 obtain a2 b2 r2 where r1: "r1 = a2 # b2 # s # r2" and h2: "hexChar a2" "hexChar b2"
    and 22: "hexPairsSep s (Suc (Suc (Suc 0))) r2 = Some final" by (rule hexPairsSepE)
  from 22 obtain a3 b3 r3 where r2: "r2 = a3 # b3 # s # r3" and h3: "hexChar a3" "hexChar b3"
    and 23: "hexPairsSep s (Suc (Suc 0)) r3 = Some final" by (rule hexPairsSepE)
  from 23 obtain a4 b4 r4 where r3: "r3 = a4 # b4 # s # r4" and h4: "hexChar a4" "hexChar b4"
    and 24: "hexPairsSep s (Suc 0) r4 = Some final" by (rule hexPairsSepE)
  from 24 obtain a5 b5 r5 where r4: "r4 = a5 # b5 # s # r5" and h5: "hexChar a5" "hexChar b5"
    and 25: "hexPairsSep s 0 r5 = Some final" by (rule hexPairsSepE)
  from 25 have r5: "r5 = final" by simp
  from 3 obtain a6 b6 where f: "final = [a6, b6]" and h6: "hexChar a6" "hexChar b6"
    unfolding hexPair_Some by blast
  have "m = [a1, b1, s, a2, b2, s, a3, b3, s, a4, b4, s, a5, b5, s, a6, b6]"
    by (simp only: m r1 r2 r3 r4 r5 f)
  with s h1 h2 h3 h4 h5 h6 show ?thesis by blast
qed

lemma isMacAddress_explicitI:
  assumes "sepChar s" "hexChar a1" "hexChar b1" "hexChar a2" "hexChar b2" "hexChar a3" "hexChar b3"
    "hexChar a4" "hexChar b4" "hexChar a5" "hexChar b5" "hexChar a6" "hexChar b6"
  shows "isMacAddress [a1, b1, s, a2, b2, s, a3, b3, s, a4, b4, s, a5, b5, s, a6, b6]"
proof -
  have 4: "(4::nat) = Suc (Suc (Suc (Suc 0)))" by simp
  show ?thesis
    unfolding isMacAddress_def 4 using assms by simp
qed

section \<open>Valid addresses as joined groups\<close>

lemma hexGroup_alt: "hexGroup g \<longleftrightarrow> length g = 2 \<and> list_all hexChar g"
  by (simp only: hexGroup_def hexChar_cases [symmetric])

lemma hexGroup_iff: "hexGroup g \<longleftrightarrow> (\<exists>a b. g = [a, b] \<and> hexChar a \<and> hexChar b)"
proof
  assume "hexGroup g"
  then have len: "length g = 2" and all: "list_all hexChar g"
    unfolding hexGroup_alt by simp_all
  from len obtain a b where "g = [a, b]"
    by (auto simp: eval_nat_numeral length_Suc_conv)
  with all show "\<exists>a b. g = [a, b] \<and> hexChar a \<and> hexChar b" by simp
next
  assume "\<exists>a b. g = [a, b] \<and> hexChar a \<and> hexChar b"
  then obtain a b where "g = [a, b]" "hexChar a" "hexChar b" by blast
  then show "hexGroup g" unfolding hexGroup_alt by simp
qed

lemma length_six:
  assumes "length (gs :: 'a list) = 6"
  obtains g1 g2 g3 g4 g5 g6 where "gs = [g1, g2, g3, g4, g5, g6]"
proof -
  from assms have "length gs = Suc (Suc (Suc (Suc (Suc (Suc 0)))))" by simp
  then show ?thesis using that unfolding length_Suc_conv by auto
qed

lemma isMacAddress_groupsI:
  assumes s: "sepChar s" and len: "length gs = 6" and all: "list_all hexGroup gs"
  shows "isMacAddress (join [s] gs)"
proof -
  from len obtain g1 g2 g3 g4 g5 g6 where gs: "gs = [g1, g2, g3, g4, g5, g6]"
    by (rule length_six)
  from all have "hexGroup g1" "hexGroup g2" "hexGroup g3" "hexGroup g4" "hexGroup g5" "hexGroup g6"
    unfolding gs by simp_all
  then obtain a1 b1 a2 b2 a3 b3 a4 b4 a5 b5 a6 b6 where
    g: "g1 = [a1, b1]" "g2 = [a2, b2]" "g3 = [a3, b3]" "g4 = [a4, b4]" "g5 = [a5, b5]" "g6 = [a6, b6]"
    and h: "hexChar a1" "hexChar b1" "hexChar a2" "hexChar b2" "hexChar a3" "hexChar b3"
      "hexChar a4" "hexChar b4" "hexChar a5" "hexChar b5" "hexChar a6" "hexChar b6"
    unfolding hexGroup_iff by blast
  have "join [s] gs = [a1, b1, s, a2, b2, s, a3, b3, s, a4, b4, s, a5, b5, s, a6, b6]"
    unfolding gs g by simp
  with isMacAddress_explicitI [OF s h] show ?thesis by simp
qed

lemma isMacAddress_groupsD:
  assumes "isMacAddress m"
  shows "\<exists>s gs. sepChar s \<and> length gs = 6 \<and> list_all hexGroup gs \<and> m = join [s] gs"
proof -
  from isMacAddress_explicitD [OF assms]
  obtain s a1 b1 a2 b2 a3 b3 a4 b4 a5 b5 a6 b6 where
    m: "m = [a1, b1, s, a2, b2, s, a3, b3, s, a4, b4, s, a5, b5, s, a6, b6]" and s: "sepChar s"
    and h: "hexChar a1" "hexChar b1" "hexChar a2" "hexChar b2" "hexChar a3" "hexChar b3"
      "hexChar a4" "hexChar b4" "hexChar a5" "hexChar b5" "hexChar a6" "hexChar b6"
    by blast
  let ?gs = "[[a1, b1], [a2, b2], [a3, b3], [a4, b4], [a5, b5], [a6, b6]]"
  have "m = join [s] ?gs" unfolding m by simp
  moreover have "list_all hexGroup ?gs" using h by (simp add: hexGroup_iff)
  moreover have "length ?gs = 6" by simp
  ultimately show ?thesis using s by blast
qed

lemma isMacAddress_iff_groups:
  "isMacAddress m \<longleftrightarrow>
     (\<exists>s gs. sepChar s \<and> length gs = 6 \<and> list_all hexGroup gs \<and> m = join [s] gs)"
  using isMacAddress_groupsD isMacAddress_groupsI by blast

section \<open>Splitting, joining and upper-casing groups\<close>

lemma split_not_Nil [simp]: "split cs \<noteq> []"
  by (induction cs) auto

lemma split_no_separator: "list_all (\<lambda>c. \<not> sepChar c) g \<Longrightarrow> split g = [g]"
  by (induction g) auto

lemma split_group_separator:
  "list_all (\<lambda>c. \<not> sepChar c) g \<Longrightarrow> sepChar s \<Longrightarrow> split (g @ s # rest) = g # split rest"
  by (induction g) auto

lemma split_join:
  "sepChar s \<Longrightarrow> gs \<noteq> [] \<Longrightarrow> list_all (list_all (\<lambda>c. \<not> sepChar c)) gs \<Longrightarrow>
     split (join [s] gs) = gs"
  by (induction "[s]" gs rule: join.induct)
     (simp_all add: split_no_separator split_group_separator)

lemma toUpperCase_append: "toUpperCase (xs @ ys) = toUpperCase xs @ toUpperCase ys"
  by (simp add: toUpperCase_def)

lemma toUpperCase_join:
  "toUpperCase (join sep gs) = join (toUpperCase sep) (map toUpperCase gs)"
  by (induction sep gs rule: join.induct) (simp_all add: toUpperCase_append, simp add: toUpperCase_def)

lemma stripSeparators_join:
  "sepChar s \<Longrightarrow> list_all (list_all (\<lambda>c. \<not> sepChar c)) gs \<Longrightarrow>
     stripSeparators (join [s] gs) = concat gs"
proof (induction "[s]" gs rule: join.induct)
  case 1
  then show ?case by (simp add: stripSeparators_def)
next
  case (2 x)
  then show ?case by (simp add: stripSeparators_def list_all_iff filter_id_conv)
next
  case (3 x y ys)
  then show ?case by (simp add: stripSeparators_def list_all_iff filter_id_conv)
qed

lemma hexGroup_no_separator: "hexGroup g \<Longrightarrow> list_all (\<lambda>c. \<not> sepChar c) g"
  unfolding hexGroup_iff by (auto simp: hexChar_not_sepChar)

lemma hexGroups_no_separator:
  "list_all hexGroup gs \<Longrightarrow> list_all (list_all (\<lambda>c. \<not> sepChar c)) gs"
  by (induction gs) (simp_all add: hexGroup_no_separator)

lemma hexChar_upperChar: "hexChar c \<Longrightarrow> hexChar (upperChar c)"
  by (rule hexChar_upper [OF upperChar_hex])

lemma upperChar_idem: "hexChar c \<Longrightarrow> upperChar (upperChar c) = upperChar c"
  by (rule upperChar_upper [OF upperChar_hex])

lemma hexGroup_toUpperCase: "hexGroup g \<Longrightarrow> hexGroup (toUpperCase g)"
  unfolding hexGroup_iff by (auto simp: toUpperCase_def hexChar_upperChar)

lemma hexGroups_toUpperCase: "list_all hexGroup gs \<Longrightarrow> list_all hexGroup (map toUpperCase gs)"
  by (induction gs) (simp_all add: hexGroup_toUpperCase)



lemma toUpperCase_separator: "sepChar s \<Longrightarrow> toUpperCase [s] = [s]"
  by (simp add: toUpperCase_def sepChar_upperChar)

lemma toArray_join:
  assumes "sepChar s" "gs \<noteq> []" "list_all hexGroup gs"
  shows "toArray (join [s] gs) = map toUpperCase gs"
proof -
  have "toUpperCase (join [s] gs) = join [s] (map toUpperCase gs)"
    by (simp add: toUpperCase_join toUpperCase_separator assms(1))
  moreover have "split (join [s] (map toUpperCase gs)) = map toUpperCase gs"
    using assms by (intro split_join hexGroups_no_separator hexGroups_toUpperCase) simp_all
  ultimately show ?thesis by (simp add: toArray_def)
qed

section \<open>The loops of the equality check\<close>




lemma convertAddresses_invalid:
  "\<not> list_all isMacAddress ms \<Longrightarrow>
     \<exists>k<length ms. \<not> isMacAddress (ms ! k) \<and> list_all isMacAddress (take k ms) \<and>
        convertAddresses ms i acc = Inl (NotAValidMacAt (ms ! k) (i + k))"
proof (induction ms arbitrary: i acc)
  case Nil
  then show ?case by simp
next
  case (Cons m ms)
  show ?case
  proof (cases "isMacAddress m")
    case False
    then have "\<not> isMacAddress ((m # ms) ! 0) \<and> list_all isMacAddress (take 0 (m # ms)) \<and>
        convertAddresses (m # ms) i acc = Inl (NotAValidMacAt ((m # ms) ! 0) (i + 0))"
      by simp
    then show ?thesis by blast
  next
    case True
    with Cons.prems have "\<not> list_all isMacAddress ms" by simp
    from Cons.IH [OF this, of "i + 1" "acc @ [toArray m]"]
    obtain k where k: "k < length ms" "\<not> isMacAddress (ms ! k)"
      "list_all isMacAddress (take k ms)"
      "convertAddresses ms (i + 1) (acc @ [toArray m]) = Inl (NotAValidMacAt (ms ! k) (i + 1 + k))"
      by blast
    with True have "Suc k < length (m # ms) \<and> \<not> isMacAddress ((m # ms) ! Suc k) \<and>
        list_all isMacAddress (take (Suc k) (m # ms)) \<and>
        convertAddresses (m # ms) i acc = Inl (NotAValidMacAt ((m # ms) ! Suc k) (i + Suc k))"
      by simp
    then show ?thesis by blast
  qed
qed





section \<open>Reversal\<close>


lemma list_all_rev_groups: "list_all hexGroup gs \<Longrightarrow> list_all hexGroup (rev gs)"
  by (simp add: list_all_iff)



section \<open>Hexadecimal digits and bytes\<close>

lemma hexValue_digitValue:
  "hexValue CHR ''0'' = Some (digitValue CHR ''0'')" "hexValue CHR ''1'' = Some (digitValue CHR ''1'')"
  "hexValue CHR ''2'' = Some (digitValue CHR ''2'')" "hexValue CHR ''3'' = Some (digitValue CHR ''3'')"
  "hexValue CHR ''4'' = Some (digitValue CHR ''4'')" "hexValue CHR ''5'' = Some (digitValue CHR ''5'')"
  "hexValue CHR ''6'' = Some (digitValue CHR ''6'')" "hexValue CHR ''7'' = Some (digitValue CHR ''7'')"
  "hexValue CHR ''8'' = Some (digitValue CHR ''8'')" "hexValue CHR ''9'' = Some (digitValue CHR ''9'')"
  "hexValue CHR ''A'' = Some (digitValue CHR ''A'')" "hexValue CHR ''B'' = Some (digitValue CHR ''B'')"
  "hexValue CHR ''C'' = Some (digitValue CHR ''C'')" "hexValue CHR ''D'' = Some (digitValue CHR ''D'')"
  "hexValue CHR ''E'' = Some (digitValue CHR ''E'')" "hexValue CHR ''F'' = Some (digitValue CHR ''F'')"
  "hexValue CHR ''a'' = Some (digitValue CHR ''a'')" "hexValue CHR ''b'' = Some (digitValue CHR ''b'')"
  "hexValue CHR ''c'' = Some (digitValue CHR ''c'')" "hexValue CHR ''d'' = Some (digitValue CHR ''d'')"
  "hexValue CHR ''e'' = Some (digitValue CHR ''e'')" "hexValue CHR ''f'' = Some (digitValue CHR ''f'')"
  by code_simp+

lemma hexValue_hexChar: "hexChar c \<Longrightarrow> hexValue c = Some (digitValue c)"
  unfolding hexChar_cases by (auto simp: hexValue_digitValue)

lemma digitValue_upperChar: "hexChar c \<Longrightarrow> digitValue (upperChar c) = digitValue c"
  by (simp add: digitValue_def upperChar_idem)

lemma groupByte_toUpperCase: "hexGroup g \<Longrightarrow> groupByte (toUpperCase g) = groupByte g"
  unfolding hexGroup_iff by (auto simp: toUpperCase_def digitValue_upperChar)

lemma hexDecode_groups:
  "list_all hexGroup gs \<Longrightarrow> length gs \<le> n \<Longrightarrow> hexDecode (concat gs) n = map groupByte gs"
proof (induction gs arbitrary: n)
  case Nil
  then show ?case by (cases n) simp_all
next
  case (Cons g gs)
  from Cons.prems obtain a b where g: "g = [a, b]" and h: "hexChar a" "hexChar b"
    by (auto simp: hexGroup_iff)
  from Cons.prems obtain n' where n: "n = Suc n'" "length gs \<le> n'" by (cases n) auto
  from Cons.prems have "hexDecode (concat gs) n' = map groupByte gs"
    using Cons.IH n by simp
  then show ?case
    unfolding g n by (simp add: hexValue_hexChar h)
qed

section \<open>Conversion to a buffer\<close>

lemma macBytes_join:
  assumes s: "sepChar s" and ne: "gs \<noteq> []" and all: "list_all hexGroup gs"
  shows "macBytes (join [s] gs) = map groupByte gs"
proof -
  have "macBytes (join [s] gs) = map groupByte (map toUpperCase gs)"
    by (simp only: macBytes_def toArray_join [OF assms])
  also have "\<dots> = map groupByte gs"
    using all by (induction gs) (simp_all add: groupByte_toUpperCase)
  finally show ?thesis .
qed

lemma toBuffer_fresh_join:
  assumes s: "sepChar s" and len: "length gs = 6" and all: "list_all hexGroup gs"
  shows "toBuffer h (join [s] gs) None None = (Inr (length h), h @ [map groupByte gs])"
proof -
  have valid: "isMacAddress (join [s] gs)" by (rule isMacAddress_groupsI [OF assms])
  have strip: "stripSeparators (join [s] gs) = concat gs"
    by (rule stripSeparators_join [OF s hexGroups_no_separator [OF all]])
  have dec: "hexDecode (concat gs) 6 = map groupByte gs"
    by (rule hexDecode_groups [OF all]) (simp add: len)
  have written: "bufferWriteHex (replicate 6 0) (concat gs) 0 6 = Inr (map groupByte gs)"
    by (simp add: bufferWriteHex_def dec len)
  show ?thesis
    using valid
    by (simp add: toBuffer_def strip bitwiseOffset_def alloc_def bufferLength_def
        validateBufferLength_def written)
qed

lemma toBuffer_fresh:
  assumes "isMacAddress mac"
  shows "toBuffer h mac None None = (Inr (length h), h @ [macBytes mac]) \<and>
         length (macBytes mac) = 6"
proof -
  from isMacAddress_groupsD [OF assms] obtain s gs where
    s: "sepChar s" and len: "length gs = 6" and all: "list_all hexGroup gs" and m: "mac = join [s] gs"
    by blast
  from len have ne: "gs \<noteq> []" by auto
  show ?thesis
    unfolding m by (simp add: toBuffer_fresh_join [OF s len all] macBytes_join [OF s ne all] len)
qed

lemma toBuffer_target:
  assumes "isMacAddress mac"
  shows "toBuffer h mac (Some r) offset =
     (if int (length (h ! r)) < bitwiseOffset offset + 6
      then (Inl (BufferNotLargeEnough (bitwiseOffset offset) (length (h ! r))), h)
      else (Inr r, h))"
  using assms by (simp add: toBuffer_def validateBufferLength_def bufferLength_def)

section \<open>Conversion to a string\<close>

lemma digits_upTo_16:
  "list_all (\<lambda>d. upperChar (hexDigit d) = ''0123456789ABCDEF'' ! d) [0..<16]"
  "list_all (\<lambda>d. digitValue (''0123456789ABCDEF'' ! d) = d) [0..<16]"
  "list_all (\<lambda>d. hexChar (''0123456789ABCDEF'' ! d)) [0..<16]"
  by code_simp+

lemma upperChar_hexDigit: "d < 16 \<Longrightarrow> upperChar (hexDigit d) = ''0123456789ABCDEF'' ! d"
  using digits_upTo_16(1) by (simp add: list_all_iff)

lemma digitValue_digit: "d < 16 \<Longrightarrow> digitValue (''0123456789ABCDEF'' ! d) = d"
  using digits_upTo_16(2) by (simp add: list_all_iff)

lemma hexChar_digit: "d < 16 \<Longrightarrow> hexChar (''0123456789ABCDEF'' ! d)"
  using digits_upTo_16(3) by (simp add: list_all_iff)

lemma numberToString16_small: "n < 16 \<Longrightarrow> numberToString16 n = [hexDigit n]"
  by (subst numberToString16.simps) simp

lemma numberToString16_byte:
  "16 \<le> n \<Longrightarrow> n < 256 \<Longrightarrow> numberToString16 n = [hexDigit (n div 16), hexDigit (n mod 16)]"
  by (subst numberToString16.simps) (simp add: numberToString16_small)

lemma padded_byteHex:
  fixes w :: byte
  shows "toUpperCase
      (let tempString = numberToString16 (unat w)
       in if length tempString < 2 then CHR ''0'' # tempString else tempString) = byteHex w"
proof -
  have lt: "unat w < 256" using unsigned_less [of w, where ?'a = nat] by simp
  have zero: "upperChar CHR ''0'' = CHR ''0''" by (simp add: upperChar_values)
  show ?thesis
  proof (cases "unat w < 16")
    case True
    then show ?thesis
      by (simp add: numberToString16_small toUpperCase_def byteHex_def upperChar_hexDigit zero)
  next
    case False
    then have ge: "16 \<le> unat w" by simp
    have d: "unat w div 16 < 16" using lt by simp
    show ?thesis
      using False
      by (simp add: numberToString16_byte [OF ge lt] toUpperCase_def byteHex_def
          upperChar_hexDigit d)
  qed
qed

lemma hexGroup_byteHex: "hexGroup (byteHex w)"
proof -
  have "unat w < 256" using unsigned_less [of w, where ?'a = nat] by simp
  then have "unat w div 16 < 16" by simp
  then show ?thesis
    unfolding hexGroup_iff byteHex_def by (simp add: hexChar_digit)
qed

lemma groupByte_byteHex: "groupByte (byteHex w) = w"
proof -
  have "unat w < 256" using unsigned_less [of w, where ?'a = nat] by simp
  then have "unat w div 16 < 16" by simp
  then have "groupByte (byteHex w) = of_nat (16 * (unat w div 16) + unat w mod 16)"
    by (simp add: byteHex_def digitValue_digit)
  also have "16 * (unat w div 16) + unat w mod 16 = unat w" by simp
  finally show ?thesis by simp
qed

lemma toStringLoop_done:
  "\<not> i < bufferLength \<Longrightarrow> toStringLoop buf off i values = Inr values"
  by (subst toStringLoop.simps) simp

lemma toStringLoop_raise:
  "i < bufferLength \<Longrightarrow> readUInt8 buf (off + int i) = Inl e \<Longrightarrow>
     toStringLoop buf off i values = Inl e"
  by (subst toStringLoop.simps) simp

lemma toStringLoop_step:
  "i < bufferLength \<Longrightarrow> readUInt8 buf (off + int i) = Inr tempByte \<Longrightarrow>
     toStringLoop buf off i values =
       toStringLoop buf off (i + 1)
         (values @ [let tempString = numberToString16 tempByte
                    in if length tempString < 2 then CHR ''0'' # tempString else tempString])"
  by (subst toStringLoop.simps) (simp add: Let_def)

lemma toStringLoop_error:
  "n = bufferLength - i \<Longrightarrow> toStringLoop buf off i values = Inl e \<Longrightarrow> e = RangeError"
proof (induction n arbitrary: i "values")
  case 0
  then have "\<not> i < bufferLength" by simp
  from toStringLoop_done [OF this] "0.prems"(2) show ?case by simp
next
  case (Suc n)
  then have i: "i < bufferLength" and n: "n = bufferLength - (i + 1)" by simp_all
  show ?case
  proof (cases "readUInt8 buf (off + int i)")
    case (Inl e')
    then have "e' = RangeError" by (simp add: readUInt8_def split: if_splits)
    with toStringLoop_raise [OF i Inl] Suc.prems(2) show ?thesis by simp
  next
    case (Inr tempByte)
    from Suc.prems(2) show ?thesis
      unfolding toStringLoop_step [OF i Inr] by (rule Suc.IH [OF n])
  qed
qed

lemma toStringLoop_in_range:
  assumes off: "0 \<le> off" and len: "nat off + bufferLength \<le> length buf"
  shows "n = bufferLength - i \<Longrightarrow>
     toStringLoop buf off i values =
       Inr (values @
            map (\<lambda>w. let tempString = numberToString16 (unat w)
                      in if length tempString < 2 then CHR ''0'' # tempString else tempString)
              (take (bufferLength - i) (drop (nat off + i) buf)))"
proof (induction n arbitrary: i "values")
  case 0
  then have "\<not> i < bufferLength" by simp
  from toStringLoop_done [OF this] 0 show ?case by simp
next
  case (Suc n)
  then have i: "i < bufferLength" and n: "n = bufferLength - (i + 1)" by simp_all
  from i len have k: "nat off + i < length buf" by simp
  have rd: "readUInt8 buf (off + int i) = Inr (unat (buf ! (nat off + i)))"
    using off k by (simp add: readUInt8_def nat_add_distrib)
  have "bufferLength - i = Suc (bufferLength - (i + 1))" using i by simp
  then have tk: "take (bufferLength - i) (drop (nat off + i) buf) =
      buf ! (nat off + i) # take (bufferLength - (i + 1)) (drop (nat off + (i + 1)) buf)"
    using k by (simp add: Cons_nth_drop_Suc [symmetric] del: drop_Suc_Cons)
  show ?case
    unfolding toStringLoop_step [OF i rd] Suc.IH [OF n] tk by simp
qed

lemma toString_default:
  assumes "length b = 6"
  shows "toString b None None = Inr (join '':'' (map byteHex b))"
proof -
  have colon: "toUpperCase '':'' = '':''"
    by (rule toUpperCase_separator) (simp add: sepChar_def)
  have "toStringLoop b 0 0 [] =
      Inr ([] @ map (\<lambda>w. let tempString = numberToString16 (unat w)
                      in if length tempString < 2 then CHR ''0'' # tempString else tempString)
              (take (bufferLength - 0) (drop (nat 0 + 0) b)))"
    by (rule toStringLoop_in_range [where n = "bufferLength - 0"])
       (simp_all add: assms bufferLength_def)
  then have loop: "toStringLoop b 0 0 [] =
      Inr (map (\<lambda>w. let tempString = numberToString16 (unat w)
                      in if length tempString < 2 then CHR ''0'' # tempString else tempString) b)"
    by (simp add: assms bufferLength_def)
  have "toString b None None =
      Inr (toUpperCase (join '':''
        (map (\<lambda>w. let tempString = numberToString16 (unat w)
                   in if length tempString < 2 then CHR ''0'' # tempString else tempString) b)))"
    by (simp add: toString_def bitwiseOffset_def validateBufferLength_def bufferLength_def assms
        loop constructMacAddress_def)
  also have "\<dots> = Inr (join '':'' (map byteHex b))"
    by (simp only: toUpperCase_join colon map_map comp_def padded_byteHex)
  finally show ?thesis .
qed

lemma toBuffer_of_toString:
  assumes "length b = 6"
  shows "toBuffer h (join '':'' (map byteHex b)) None None = (Inr (length h), h @ [b])"
proof -
  have colon: "sepChar CHR '':''" by (simp add: sepChar_def)
  have all: "list_all hexGroup (map byteHex b)"
    by (simp add: list_all_iff hexGroup_byteHex)
  have "toBuffer h (join '':'' (map byteHex b)) None None
      = (Inr (length h), h @ [map groupByte (map byteHex b)])"
    by (rule toBuffer_fresh_join [OF colon _ all]) (simp add: assms)
  also have "map groupByte (map byteHex b) = b"
    by (simp add: map_idI groupByte_byteHex)
  finally show ?thesis .
qed

section \<open>Properties\<close>

subsection \<open>Equality of no addresses\<close>

text \<open>
  C9: \<open>areEqual\<close> called with no argument returns \<open>true\<close>: both loops run over an
  empty list, so no error is raised and the initial value of \<open>equal\<close> is returned.
\<close>

theorem areEqual_no_arguments: "areEqual [] = Inr True"
  by (simp add: areEqual_def compareWithFirst_def)

subsection \<open>The validator accepts exactly the grammar\<close>

text \<open>
  C4: \<open>isMacAddress s\<close> is true exactly when \<open>s\<close> consists of six groups of two
  hexadecimal characters joined by five occurrences of one separator, \<open>:\<close> or \<open>-\<close>,
  the same throughout; the empty string is rejected.  \<open>isMacAddress\<close> is a total
  function into the booleans: it has no failing branch.
\<close>

theorem isMacAddress_grammar:
  "isMacAddress s = macAddressShape s \<and> isMacAddress [] = False"
proof -
  have "isMacAddress s = macAddressShape s"
    unfolding macAddressShape_def isMacAddress_iff_groups sepChar_def ..
  moreover have "isMacAddress [] = False"
    by (simp add: isMacAddress_def)
  ultimately show ?thesis ..
qed

theorem isMacAddress_grammar_witness:
  "isMacAddress ''1C:91:76:89:60:94'' \<and> macAddressShape ''1C:91:76:89:60:94'' \<and>
   \<not> isMacAddress ''00-ff-da:ff:00:da'' \<and> \<not> macAddressShape ''00-ff-da:ff:00:da''"
proof -
  have 1: "isMacAddress ''1C:91:76:89:60:94''" by code_simp
  have 2: "\<not> isMacAddress ''00-ff-da:ff:00:da''" by code_simp
  from 1 2 show ?thesis
    using isMacAddress_grammar [of "''1C:91:76:89:60:94''"]
      isMacAddress_grammar [of "''00-ff-da:ff:00:da''"]
    by simp
qed

subsection \<open>Equality is equality of the sets of groups\<close>



subsection \<open>Reversal and its involution\<close>



subsection \<open>Malformed strings are rejected\<close>

text \<open>
  C8: a string that \<open>isMacAddress\<close> rejects makes \<open>toBuffer\<close> and \<open>reverseMacAddress\<close>
  raise the invalid-format error (and \<open>toBuffer\<close> leaves the heap as it was); \<open>areEqual\<close>
  with such a string among its arguments raises the invalid-format error that names the
  first invalid argument and its position, which are the string itself and its own
  position when the arguments before it are valid.  No value is returned.
\<close>

theorem malformed_string_raises:
  assumes "\<not> isMacAddress s"
  shows "toBuffer h s buf offset = (Inl NotAValidMac, h) \<and>
         reverseMacAddress s = Inl NotAValidMac \<and>
         (\<exists>k\<le>length before.
            areEqual (before @ s # after) = Inl (NotAValidMacAt ((before @ s # after) ! k) k) \<and>
            \<not> isMacAddress ((before @ s # after) ! k) \<and>
            (list_all isMacAddress before \<longrightarrow> k = length before))"
proof -
  let ?ms = "before @ s # after"
  have 1: "toBuffer h s buf offset = (Inl NotAValidMac, h)"
    using assms by (simp add: toBuffer_def)
  have 2: "reverseMacAddress s = Inl NotAValidMac"
    using assms by (simp add: reverseMacAddress_def)
  have "\<not> list_all isMacAddress ?ms" using assms by simp
  from convertAddresses_invalid [OF this, of 0 "[]"]
  obtain k where k: "k < length ?ms" "\<not> isMacAddress (?ms ! k)"
    "list_all isMacAddress (take k ?ms)"
    "convertAddresses ?ms 0 [] = Inl (NotAValidMacAt (?ms ! k) k)"
    by auto
  have le: "k \<le> length before"
  proof (rule ccontr)
    assume "\<not> k \<le> length before"
    then have "s \<in> set (take k ?ms)" by (simp add: take_Cons')
    with k(3) assms show False by (simp add: list_all_iff)
  qed
  have eq: "list_all isMacAddress before \<longrightarrow> k = length before"
  proof
    assume b: "list_all isMacAddress before"
    show "k = length before"
    proof (rule ccontr)
      assume "k \<noteq> length before"
      with le have "k < length before" by simp
      then have "?ms ! k \<in> set before" by (simp add: nth_append)
      with b k(2) show False by (simp add: list_all_iff)
    qed
  qed
  have "areEqual ?ms = Inl (NotAValidMacAt (?ms ! k) k)"
    using k(4) by (simp add: areEqual_def)
  with le k(2) eq have "\<exists>k\<le>length before.
      areEqual ?ms = Inl (NotAValidMacAt (?ms ! k) k) \<and> \<not> isMacAddress (?ms ! k) \<and>
      (list_all isMacAddress before \<longrightarrow> k = length before)"
    by blast
  with 1 2 show ?thesis by blast
qed

theorem malformed_string_raises_witness:
  "\<not> isMacAddress ''fff:00:00:00:00:00'' \<and>
   toBuffer [] ''fff:00:00:00:00:00'' None None = (Inl NotAValidMac, []) \<and>
   reverseMacAddress ''fff:00:00:00:00:00'' = Inl NotAValidMac \<and>
   areEqual [''AA:AA:AA:AA:AA:AA'', ''fff:00:00:00:00:00'', ''XX:XX'']
     = Inl (NotAValidMacAt ''fff:00:00:00:00:00'' 1)"
proof -
  have h: "\<not> isMacAddress ''fff:00:00:00:00:00''" by code_simp
  have "areEqual [''AA:AA:AA:AA:AA:AA'', ''fff:00:00:00:00:00'', ''XX:XX'']
     = Inl (NotAValidMacAt ''fff:00:00:00:00:00'' 1)" by code_simp
  with h malformed_string_raises [OF h, of "[]" None None "[''AA:AA:AA:AA:AA:AA'']" "[''XX:XX'']"]
  show ?thesis by simp
qed

subsection \<open>Round trip between buffers and strings\<close>

text \<open>
  C3: for every buffer \<open>b\<close> of six bytes, \<open>toString b\<close> is the six bytes as two
  upper-case hexadecimal digits each, padded with a zero and joined with \<open>:\<close>, and
  \<open>toBuffer\<close> of that string returns a new buffer whose bytes are those of \<open>b\<close>.
\<close>

theorem toBuffer_toString_roundtrip:
  assumes "length b = 6"
  shows "toString b None None = Inr (join '':'' (map byteHex b)) \<and>
         (\<exists>s. toString b None None = Inr s \<and>
              toBuffer h s None None = (Inr (length h), h @ [b]))"
  using toString_default [OF assms] toBuffer_of_toString [OF assms] by simp

theorem toBuffer_toString_roundtrip_witness:
  "length [0xAA, 0xBB, 0xCC, 0xDD, 0xEE, 0xFF :: byte] = 6 \<and>
   toString [0xAA, 0xBB, 0xCC, 0xDD, 0xEE, 0xFF] None None = Inr ''AA:BB:CC:DD:EE:FF'' \<and>
   toBuffer [] ''AA:BB:CC:DD:EE:FF'' None None = (Inr 0, [[0xAA, 0xBB, 0xCC, 0xDD, 0xEE, 0xFF]])"
proof -
  have len: "length [0xAA, 0xBB, 0xCC, 0xDD, 0xEE, 0xFF :: byte] = 6" by simp
  have str: "join '':'' (map byteHex [0xAA, 0xBB, 0xCC, 0xDD, 0xEE, 0xFF]) = ''AA:BB:CC:DD:EE:FF''"
    by code_simp
  from toBuffer_toString_roundtrip [OF len, of "[]"]
  have 1: "toString [0xAA, 0xBB, 0xCC, 0xDD, 0xEE, 0xFF] None None = Inr ''AA:BB:CC:DD:EE:FF''"
    and 2: "\<exists>s. toString [0xAA, 0xBB, 0xCC, 0xDD, 0xEE, 0xFF] None None = Inr s \<and>
      toBuffer [] s None None = (Inr (length ([] :: heap)), [] @ [[0xAA, 0xBB, 0xCC, 0xDD, 0xEE, 0xFF]])"
    unfolding str by blast+
  from 2 have "toBuffer [] ''AA:BB:CC:DD:EE:FF'' None None
      = (Inr 0, [[0xAA, 0xBB, 0xCC, 0xDD, 0xEE, 0xFF]])"
    unfolding 1 by simp
  with len 1 show ?thesis by (intro conjI)
qed

subsection \<open>Conversion to a buffer without a target\<close>

text \<open>
  C2, as stated, fails: without a target, \<open>toBuffer\<close> does write the decoded bytes
  into the buffer it allocates, and the result is not a buffer of zeros.
\<close>

theorem toBuffer_fresh_not_zero:
  "toBuffer [] ''AA:BB:CC:DD:EE:FF'' None None = (Inr 0, [[0xAA, 0xBB, 0xCC, 0xDD, 0xEE, 0xFF]]) \<and>
   toBuffer [] ''AA:BB:CC:DD:EE:FF'' None None \<noteq> (Inr 0, [replicate 6 0])"
  by code_simp

text \<open>
  C2, amended: for every valid address \<open>mac\<close>, \<open>toBuffer mac\<close> with no target and the
  default offset allocates a new buffer of six bytes, passes the length check, writes the
  six bytes that \<open>mac\<close> denotes into it and returns it; the buffers that were on the heap
  are unchanged.
\<close>

theorem toBuffer_fresh_written:
  assumes "isMacAddress mac"
  shows "toBuffer h mac None None = (Inr (length h), h @ [macBytes mac]) \<and>
         length (macBytes mac) = 6"
  by (rule toBuffer_fresh [OF assms])

theorem toBuffer_fresh_written_witness:
  "isMacAddress ''1c-91-76-89-60-94'' \<and>
   toBuffer [[1, 2, 3]] ''1c-91-76-89-60-94'' None None
     = (Inr 1, [[1, 2, 3], [0x1C, 0x91, 0x76, 0x89, 0x60, 0x94]])"
proof -
  have h: "isMacAddress ''1c-91-76-89-60-94''" by code_simp
  have b: "macBytes ''1c-91-76-89-60-94'' = [0x1C, 0x91, 0x76, 0x89, 0x60, 0x94]" by code_simp
  from toBuffer_fresh_written [OF h, of "[[1, 2, 3]]"] h show ?thesis
    unfolding b by simp
qed

subsection \<open>Conversion to a buffer with a target\<close>

text \<open>
  C1 says that \<open>toBuffer\<close> writes the six decoded bytes into a supplied target that is
  large enough.  The code validates the target and returns it, but writes only when no
  target was supplied: a target of six zero bytes is returned unchanged for the address
  \<open>AA:BB:CC:DD:EE:FF\<close>, whose bytes are not zero.
\<close>

theorem toBuffer_target_unwritten:
  "toBuffer [[0, 0, 0, 0, 0, 0]] ''AA:BB:CC:DD:EE:FF'' (Some 0) (Some 0)
     = (Inr 0, [[0, 0, 0, 0, 0, 0]]) \<and>
   macBytes ''AA:BB:CC:DD:EE:FF'' = [0xAA, 0xBB, 0xCC, 0xDD, 0xEE, 0xFF]"
  by code_simp

subsection \<open>The buffer-size guard\<close>

lemma bitwiseOffset_int32: "- (2 ^ 31) \<le> n \<Longrightarrow> n < 2 ^ 31 \<Longrightarrow> bitwiseOffset (Some n) = n"
  by (simp add: bitwiseOffset_def toInt32_def)

lemma toString_too_small_iff:
  "(\<exists>off n. toString buf offset sep = Inl (BufferNotLargeEnough off n))
     = (int (length buf) < bitwiseOffset offset + 6)"
proof (cases "int (length buf) < bitwiseOffset offset + 6")
  case True
  then show ?thesis
    by (simp add: toString_def validateBufferLength_def bufferLength_def)
next
  case False
  have "toString buf offset sep \<noteq> Inl (BufferNotLargeEnough off n)" for off n
  proof (cases "toStringLoop buf (bitwiseOffset offset) 0 []")
    case (Inl e)
    then have "e = RangeError" by (rule toStringLoop_error [OF refl])
    with Inl False show ?thesis
      by (simp add: toString_def validateBufferLength_def bufferLength_def)
  next
    case (Inr strs)
    with False show ?thesis
      by (simp add: toString_def validateBufferLength_def bufferLength_def)
  qed
  with False show ?thesis by simp
qed

lemma toString_too_small:
  "int (length buf) < bitwiseOffset offset + 6 \<Longrightarrow>
     toString buf offset sep = Inl (BufferNotLargeEnough (bitwiseOffset offset) (length buf))"
  by (simp add: toString_def validateBufferLength_def bufferLength_def)

text \<open>
  C7, as stated, fails: the guard compares the length with \<open>~~offset + 6\<close>, not with
  \<open>offset + 6\<close>.  The offset \<open>4294967296\<close> wraps around to 0, so a buffer of six bytes,
  whose length is less than \<open>4294967296 + 6\<close>, passes the guard: \<open>toString\<close> returns the
  string of its six bytes and \<open>toBuffer\<close> returns the target, and neither raises the
  buffer-size error.
\<close>

theorem buffer_too_small_wrapped_offset:
  "int (length [1, 2, 3, 4, 5, 6 :: byte]) < 4294967296 + 6 \<and>
   toString [1, 2, 3, 4, 5, 6] (Some 4294967296) None = Inr ''01:02:03:04:05:06'' \<and>
   int (length ([[1, 2, 3, 4, 5, 6 :: byte]] ! 0)) < 4294967296 + 6 \<and>
   toBuffer [[1, 2, 3, 4, 5, 6]] ''AA:BB:CC:DD:EE:FF'' (Some 0) (Some 4294967296)
     = (Inr 0, [[1, 2, 3, 4, 5, 6]])"
  by code_simp

text \<open>
  C7, amended: on a valid address and a supplied target, \<open>toBuffer\<close> raises the
  buffer-size error exactly when the length of the target is less than \<open>~~offset + 6\<close>,
  and otherwise returns the target; \<open>toString\<close> raises the buffer-size error exactly when
  the length of the buffer is less than \<open>~~offset + 6\<close>.  On that error nothing is
  returned and the heap is unchanged.  Here \<open>~~offset\<close> is the offset wrapped around to
  a signed 32-bit integer: the offset itself when it lies between \<open>-2 ^ 31\<close> and
  \<open>2 ^ 31 - 1\<close>, and 0 when it is omitted; so a buffer of five bytes at offset 0 fails
  for both.
\<close>

theorem buffer_too_small_exactly:
  assumes "isMacAddress mac" and "r < length h"
  shows "(toBuffer h mac (Some r) offset
            = (Inl (BufferNotLargeEnough (bitwiseOffset offset) (length (h ! r))), h))
           = (int (length (h ! r)) < bitwiseOffset offset + 6) \<and>
         (toBuffer h mac (Some r) offset = (Inr r, h))
           = (\<not> int (length (h ! r)) < bitwiseOffset offset + 6) \<and>
         (\<exists>off n. toString buf offset sep = Inl (BufferNotLargeEnough off n))
           = (int (length buf) < bitwiseOffset offset + 6) \<and>
         (int (length buf) < bitwiseOffset offset + 6 \<longrightarrow>
            toString buf offset sep
              = Inl (BufferNotLargeEnough (bitwiseOffset offset) (length buf))) \<and>
         bitwiseOffset None = 0 \<and>
         (\<forall>n. - (2 ^ 31) \<le> n \<and> n < 2 ^ 31 \<longrightarrow> bitwiseOffset (Some n) = n)"
proof -
  have 1: "(toBuffer h mac (Some r) offset
            = (Inl (BufferNotLargeEnough (bitwiseOffset offset) (length (h ! r))), h))
           = (int (length (h ! r)) < bitwiseOffset offset + 6)"
    by (simp add: toBuffer_target [OF assms(1)])
  have 2: "(toBuffer h mac (Some r) offset = (Inr r, h))
           = (\<not> int (length (h ! r)) < bitwiseOffset offset + 6)"
    by (simp add: toBuffer_target [OF assms(1)])
  have 3: "bitwiseOffset None = 0" by (simp add: bitwiseOffset_def)
  have 4: "\<forall>n. - (2 ^ 31) \<le> n \<and> n < 2 ^ 31 \<longrightarrow> bitwiseOffset (Some n) = n"
    by (simp add: bitwiseOffset_int32)
  from 1 2 3 4 toString_too_small_iff [of buf offset sep] toString_too_small [of buf offset sep]
  show ?thesis by (intro conjI impI)
qed

theorem buffer_too_small_exactly_witness:
  "isMacAddress ''AA:BB:CC:DD:EE:FF'' \<and>
   toBuffer [[1, 2, 3, 4, 5]] ''AA:BB:CC:DD:EE:FF'' (Some 0) (Some 0)
     = (Inl (BufferNotLargeEnough 0 5), [[1, 2, 3, 4, 5]]) \<and>
   toString [1, 2, 3, 4, 5] (Some 0) None = Inl (BufferNotLargeEnough 0 5)"
proof -
  have v: "isMacAddress ''AA:BB:CC:DD:EE:FF''" by code_simp
  have r: "(0::nat) < length [[1, 2, 3, 4, 5 :: byte]]" by simp
  have off: "bitwiseOffset (Some 0) = 0" by (simp add: bitwiseOffset_def toInt32_def)
  from buffer_too_small_exactly [OF v r, of "Some 0" "[1, 2, 3, 4, 5]" None]
  have "toBuffer [[1, 2, 3, 4, 5]] ''AA:BB:CC:DD:EE:FF'' (Some 0) (Some 0)
      = (Inl (BufferNotLargeEnough 0 5), [[1, 2, 3, 4, 5]])"
    and "toString [1, 2, 3, 4, 5] (Some 0) None = Inl (BufferNotLargeEnough 0 5)"
    unfolding off by simp_all
  with v show ?thesis by (intro conjI)
qed

subsection \<open>Negative offsets\<close>

text \<open>
  C10: the guard does not reject a negative offset.  For a buffer of six bytes and the
  offset \<open>-1\<close>, which \<open>~~\<close> leaves as it is, \<open>validateBufferLength\<close> passes although the
  six positions from \<open>-1\<close> on are not all inside the buffer; \<open>toString\<close> then reads index
  \<open>-1\<close> and fails with a \<open>RangeError\<close>, not with the buffer-size error.  \<open>toBuffer\<close>
  passes the same guard: with a target it returns the target, and without one the write
  into the new buffer fails with a \<open>RangeError\<close>.
\<close>

theorem negative_offset_passes_guard:
  "bitwiseOffset (Some (- 1)) = - 1 \<and>
   validateBufferLength [b0, b1, b2, b3, b4, b5] (bitwiseOffset (Some (- 1))) = Inr () \<and>
   toString [b0, b1, b2, b3, b4, b5] (Some (- 1)) sep = Inl RangeError \<and>
   toBuffer [[b0, b1, b2, b3, b4, b5]] ''AA:BB:CC:DD:EE:FF'' (Some 0) (Some (- 1))
     = (Inr 0, [[b0, b1, b2, b3, b4, b5]]) \<and>
   fst (toBuffer [] ''AA:BB:CC:DD:EE:FF'' None (Some (- 1))) = Inl RangeError"
proof -
  let ?b = "[b0, b1, b2, b3, b4, b5]"
  have off: "bitwiseOffset (Some (- 1)) = - 1" by (simp add: bitwiseOffset_def toInt32_def)
  have ok: "validateBufferLength ?b (- 1) = Inr ()"
    by (simp add: validateBufferLength_def bufferLength_def)
  have "readUInt8 ?b (- 1 + int 0) = Inl RangeError" by (simp add: readUInt8_def)
  then have "toStringLoop ?b (- 1) 0 [] = Inl RangeError"
    by (rule toStringLoop_raise [rotated]) (simp add: bufferLength_def)
  then have str: "toString ?b (Some (- 1)) sep = Inl RangeError"
    by (simp add: toString_def off ok)
  have v: "isMacAddress ''AA:BB:CC:DD:EE:FF''" by code_simp
  have tgt: "toBuffer [?b] ''AA:BB:CC:DD:EE:FF'' (Some 0) (Some (- 1)) = (Inr 0, [?b])"
    by (simp add: toBuffer_target [OF v] off)
  have new: "fst (toBuffer [] ''AA:BB:CC:DD:EE:FF'' None (Some (- 1))) = Inl RangeError"
    by code_simp
  from off ok str tgt new show ?thesis by (simp only: off)
qed

theorem negative_offset_passes_guard_witness:
  "validateBufferLength [1, 2, 3, 4, 5, 6] (- 1) = Inr () \<and>
   toString [1, 2, 3, 4, 5, 6] (Some (- 1)) None = Inl RangeError"
proof -
  from negative_offset_passes_guard [of 1 2 3 4 5 6 None]
  have off: "bitwiseOffset (Some (- 1)) = - 1"
    and ok: "validateBufferLength [1, 2, 3, 4, 5, 6] (bitwiseOffset (Some (- 1))) = Inr ()"
    and str: "toString [1, 2, 3, 4, 5, 6] (Some (- 1)) None = Inl RangeError"
    by blast+
  from ok str show ?thesis unfolding off by (intro conjI)
qed

end
